theory Spec2Isabelle
  imports Main "HOL-Library.Word" "HOL-Library.Multiset"
begin

section \<open>Contacts and groups of the expense ledger (convex/contacts.js)\<close>

text \<open>
  The two handlers of \<^verbatim>\<open>convex/contacts.js\<close> are embedded: the query
  \<^verbatim>\<open>getAllContacts\<close> and the mutation \<^verbatim>\<open>createGroup\<close>. The
  database is passed explicitly; the mutation returns the database it leaves behind
  next to its result, and an exception thrown by the handler is a value of \<open>error\<close>.
\<close>

subsection \<open>Strings\<close>

text \<open>
  A JavaScript string is a sequence of 16-bit code units. String literals of the source
  are written with \<open>lit\<close> from their ASCII spelling.
\<close>

type_synonym code_unit = "16 word"
type_synonym js_string = "code_unit list"

definition lit :: "string \<Rightarrow> js_string" where
  "lit s = map (\<lambda>c. of_nat (of_char c)) s"

text \<open>
  \<^verbatim>\<open>String.prototype.trim\<close> removes the leading and the trailing run of
  white space and line terminators (ECMAScript \<^verbatim>\<open>WhiteSpace\<close> and
  \<^verbatim>\<open>LineTerminator\<close>; all of them are single code units).
\<close>

definition is_white_space :: "code_unit \<Rightarrow> bool" where
  "is_white_space c \<longleftrightarrow>
     c \<in> set [0x0009, 0x000A, 0x000B, 0x000C, 0x000D, 0x0020, 0x00A0, 0x1680,
               0x2028, 0x2029, 0x202F, 0x205F, 0x3000, 0xFEFF]
     \<or> (0x2000 \<le> c \<and> c \<le> 0x200A)"

definition trim :: "js_string \<Rightarrow> js_string" where
  "trim s = rev (dropWhile is_white_space (rev (dropWhile is_white_space s)))"

text \<open>
  Modelled from the spec: the collation of \<^verbatim>\<open>String.prototype.localeCompare\<close>
  belongs to the runtime and is not part of the repository; the handlers below take it
  as the parameter \<open>localeCompare\<close>. The spec describes it as case-sensitive
  lexicographic ordering, which is \<open>codeunit_compare\<close>: the first differing code
  unit decides, a proper prefix comes first.
\<close>

fun codeunit_compare :: "js_string \<Rightarrow> js_string \<Rightarrow> int" where
  "codeunit_compare [] [] = 0"
| "codeunit_compare [] (y # ys) = -1"
| "codeunit_compare (x # xs) [] = 1"
| "codeunit_compare (x # xs) (y # ys) =
     (if x < y then -1 else if y < x then 1 else codeunit_compare xs ys)"

subsection \<open>Documents\<close>

text \<open>
  A Convex document id is an opaque token that names a table and a document of it
  (\<^verbatim>\<open>v.id("users")\<close>); it is modelled by a number tagged with its table.
\<close>

datatype user_id = UserId nat
datatype group_id = GroupId nat

record user =
  u_id :: user_id
  u_name :: js_string
  u_email :: js_string
  u_imageUrl :: "js_string option"

text \<open>The handlers read only \<open>userId\<close> of a split.\<close>

record split =
  userId :: user_id
  amount :: int

record expense =
  paidByUserId :: user_id
  groupId :: "group_id option"
  splits :: "split list"

datatype role = admin | member

record group_member =
  m_userId :: user_id
  m_role :: role
  m_joinedAt :: nat

text \<open>The fields that \<^verbatim>\<open>createGroup\<close> passes to \<^verbatim>\<open>insert\<close>, and
  the stored document, which has the id that \<^verbatim>\<open>insert\<close> gave it.\<close>

record group_doc =
  g_name :: js_string
  g_description :: "js_string option"
  g_createdBy :: user_id
  g_members :: "group_member list"

record group = group_doc +
  g_id :: group_id

text \<open>
  The tables hold their documents in creation order, which is the order in which
  \<^verbatim>\<open>collect()\<close> returns the documents of one index key. \<open>next_id\<close> is
  the number of the id that the next \<^verbatim>\<open>insert\<close> hands out.
\<close>

record db =
  users :: "user list"
  expenses :: "expense list"
  groups :: "group list"
  next_id :: nat

definition db_get_user :: "db \<Rightarrow> user_id \<Rightarrow> user option" where
  "db_get_user d i = find (\<lambda>u. u_id u = i) (users d)"

definition db_insert_group :: "db \<Rightarrow> group_doc \<Rightarrow> group_id \<times> db" where
  "db_insert_group d doc =
     (let gid = GroupId (next_id d)
      in (gid, d\<lparr>groups := groups d @ [group_doc.extend doc \<lparr>g_id = gid\<rparr>],
                 next_id := Suc (next_id d)\<rparr>))"

subsection \<open>Sets and sorting of the JavaScript runtime\<close>

text \<open>
  A \<^verbatim>\<open>Set\<close> iterates in insertion order and ignores the insertion of an
  element it has: a list without the second occurrences.
\<close>

definition set_add :: "'a list \<Rightarrow> 'a \<Rightarrow> 'a list" where
  "set_add s x = (if x \<in> set s then s else s @ [x])"

definition new_Set :: "'a list \<Rightarrow> 'a list" where
  "new_Set xs = foldl set_add [] xs"

text \<open>
  \<^verbatim>\<open>Array.prototype.sort\<close> with a comparator returns a permutation of the
  array. It is stable, and for a comparator that is consistent on the elements it returns
  them in the comparator's order; for an inconsistent one ECMAScript leaves the order to
  the implementation. The model is the stable insertion sort: it is what every conforming
  engine computes for a consistent comparator, and for an inconsistent one it is a
  permutation that need not be the engine's. Accordingly the theorems below use the order
  of \<open>js_sort\<close> only under a consistent comparator, and otherwise only that its
  result is a permutation (\<open>mset_js_sort\<close>). A comparator result that is not a
  number counts as 0.
\<close>

fun sort_insert :: "('a \<Rightarrow> 'a \<Rightarrow> int) \<Rightarrow> 'a \<Rightarrow> 'a list \<Rightarrow> 'a list" where
  "sort_insert cmp x [] = [x]"
| "sort_insert cmp x (y # ys) =
     (if cmp x y \<le> 0 then x # y # ys else y # sort_insert cmp x ys)"

definition js_sort :: "('a \<Rightarrow> 'a \<Rightarrow> int) \<Rightarrow> 'a list \<Rightarrow> 'a list" where
  "js_sort cmp xs = foldr (sort_insert cmp) xs []"


subsection \<open>getAllContacts\<close>

datatype contact_type = type_user | type_group

record contact_user =
  c_id :: user_id
  c_name :: js_string
  c_email :: js_string
  c_imageUrl :: "js_string option"
  c_type :: contact_type

record contact_group =
  cg_id :: group_id
  cg_name :: js_string
  cg_description :: "js_string option"
  cg_memberCount :: nat
  cg_type :: contact_type

record contacts =
  c_users :: "contact_user list"
  c_groups :: "contact_group list"

text \<open>Personal expenses that the viewer paid (index \<^verbatim>\<open>by_user_and_group\<close>).\<close>

definition expensesYouPaid :: "db \<Rightarrow> user_id \<Rightarrow> expense list" where
  "expensesYouPaid d cu =
     filter (\<lambda>e. paidByUserId e = cu \<and> groupId e = None) (expenses d)"

text \<open>Personal expenses (index \<^verbatim>\<open>by_group\<close>) that somebody else paid and
  that list the viewer in a split.\<close>

definition expensesNotPaidByYou :: "db \<Rightarrow> user_id \<Rightarrow> expense list" where
  "expensesNotPaidByYou d cu =
     filter (\<lambda>e. paidByUserId e \<noteq> cu \<and> list_ex (\<lambda>s. userId s = cu) (splits e))
       (filter (\<lambda>e. groupId e = None) (expenses d))"

definition personalExpenses :: "db \<Rightarrow> user_id \<Rightarrow> expense list" where
  "personalExpenses d cu = expensesYouPaid d cu @ expensesNotPaidByYou d cu"

text \<open>The body of \<^verbatim>\<open>personalExpenses.forEach\<close>: one expense added to the
  set of contact ids.\<close>

definition add_expense_contacts :: "user_id \<Rightarrow> user_id list \<Rightarrow> expense \<Rightarrow> user_id list" where
  "add_expense_contacts cu ids exp =
     foldl (\<lambda>acc s. if userId s \<noteq> cu then set_add acc (userId s) else acc)
       (if paidByUserId exp \<noteq> cu then set_add ids (paidByUserId exp) else ids)
       (splits exp)"

definition contactIds :: "db \<Rightarrow> user_id \<Rightarrow> user_id list" where
  "contactIds d cu = foldl (add_expense_contacts cu) [] (personalExpenses d cu)"

definition to_contact_user :: "user \<Rightarrow> contact_user" where
  "to_contact_user u =
     \<lparr>c_id = u_id u, c_name = u_name u, c_email = u_email u,
      c_imageUrl = u_imageUrl u, c_type = type_user\<rparr>"

text \<open>The array of the resolved contacts, with \<open>None\<close> (\<^verbatim>\<open>null\<close>) for an
  id that \<^verbatim>\<open>ctx.db.get\<close> does not find.\<close>

definition contactUsers :: "db \<Rightarrow> user_id \<Rightarrow> contact_user option list" where
  "contactUsers d cu = map (\<lambda>i. map_option to_contact_user (db_get_user d i)) (contactIds d cu)"

definition to_contact_group :: "group \<Rightarrow> contact_group" where
  "to_contact_group g =
     \<lparr>cg_id = g_id g, cg_name = g_name g, cg_description = g_description g,
      cg_memberCount = length (g_members g), cg_type = type_group\<rparr>"

definition userGroups :: "db \<Rightarrow> user_id \<Rightarrow> contact_group list" where
  "userGroups d cu =
     map to_contact_group
       (filter (\<lambda>g. list_ex (\<lambda>m. m_userId m = cu) (g_members g)) (groups d))"

text \<open>
  The comparator \<^verbatim>\<open>(a, b) => a?.name.localeCompare(b?.name)\<close> of the users:
  for \<^verbatim>\<open>a = null\<close> the optional chain yields \<^verbatim>\<open>undefined\<close>, which the
  sort counts as 0; for \<^verbatim>\<open>b = null\<close> the argument is \<^verbatim>\<open>undefined\<close>,
  which \<^verbatim>\<open>localeCompare\<close> converts to the string "undefined". On an array
  with a \<^verbatim>\<open>null\<close> this comparator is not consistent, and where the entries
  end up depends on the engine; the theorems about the order of the users are stated for
  arrays without \<^verbatim>\<open>null\<close>, the others hold for every permutation.
\<close>

definition compare_users ::
  "(js_string \<Rightarrow> js_string \<Rightarrow> int) \<Rightarrow> contact_user option \<Rightarrow> contact_user option \<Rightarrow> int" where
  "compare_users localeCompare a b =
     (case a of
        None \<Rightarrow> 0
      | Some u \<Rightarrow> localeCompare (c_name u)
                    (case b of None \<Rightarrow> lit ''undefined'' | Some w \<Rightarrow> c_name w))"

definition compare_groups ::
  "(js_string \<Rightarrow> js_string \<Rightarrow> int) \<Rightarrow> contact_group \<Rightarrow> contact_group \<Rightarrow> int" where
  "compare_groups localeCompare a b = localeCompare (cg_name a) (cg_name b)"

text \<open>\<^verbatim>\<open>filter(Boolean)\<close> on an array of objects and \<^verbatim>\<open>null\<close>s.\<close>

definition filter_Boolean :: "'a option list \<Rightarrow> 'a list" where
  "filter_Boolean xs = List.map_filter (\<lambda>x. x) xs"

definition getAllContacts ::
  "(js_string \<Rightarrow> js_string \<Rightarrow> int) \<Rightarrow> db \<Rightarrow> user \<Rightarrow> contacts" where
  "getAllContacts localeCompare d currentUser =
     \<lparr>c_users = filter_Boolean
                  (js_sort (compare_users localeCompare) (contactUsers d (u_id currentUser))),
      c_groups = js_sort (compare_groups localeCompare) (userGroups d (u_id currentUser))\<rparr>"

subsection \<open>createGroup\<close>

text \<open>
  The two exceptions of the handler: \<open>InvalidGroupName\<close> is
  \<^verbatim>\<open>Error("Group name cannot be empty")\<close>, and \<open>UnknownUser i\<close> is
  \<^verbatim>\<open>Error(`User with ID ${id} not found`)\<close>.
\<close>

datatype error = InvalidGroupName | UnknownUser user_id

record createGroup_args =
  name :: js_string
  description :: "js_string option"
  members :: "user_id list"

definition uniqueMembers :: "user \<Rightarrow> createGroup_args \<Rightarrow> user_id list" where
  "uniqueMembers currentUser args = set_add (new_Set (members args)) (u_id currentUser)"

text \<open>The validation loop: the first id of the set that \<^verbatim>\<open>ctx.db.get\<close> does
  not find.\<close>

definition first_missing :: "db \<Rightarrow> user_id list \<Rightarrow> user_id option" where
  "first_missing d ids = find (\<lambda>i. db_get_user d i = None) ids"

text \<open>
  \<^verbatim>\<open>Date.now()\<close> is called once for every member, inside the callback of
  \<^verbatim>\<open>map\<close>: \<open>clock k\<close> is what the \<open>k\<close>-th call of the handler returns.
\<close>

definition new_members :: "(nat \<Rightarrow> nat) \<Rightarrow> user \<Rightarrow> user_id list \<Rightarrow> group_member list" where
  "new_members clock currentUser ids =
     map (\<lambda>(k, i). \<lparr>m_userId = i,
                     m_role = (if i = u_id currentUser then admin else member),
                     m_joinedAt = clock k\<rparr>)
       (enumerate 0 ids)"

definition createGroup ::
  "(nat \<Rightarrow> nat) \<Rightarrow> db \<Rightarrow> user \<Rightarrow> createGroup_args \<Rightarrow> (error + group_id) \<times> db" where
  "createGroup clock d currentUser args =
     (if trim (name args) = [] then (Inl InvalidGroupName, d)
      else
        let ids = uniqueMembers currentUser args in
        case first_missing d ids of
          Some i \<Rightarrow> (Inl (UnknownUser i), d)
        | None \<Rightarrow>
            let (gid, d') = db_insert_group d
                  \<lparr>g_name = trim (name args),
                   g_description = Some (case description args of
                                           None \<Rightarrow> []
                                         | Some s \<Rightarrow> trim s),
                   g_createdBy = u_id currentUser,
                   g_members = new_members clock currentUser ids\<rparr>
            in (Inr gid, d'))"

subsection \<open>Example ledger states\<close>

text \<open>
  A small ledger on which the theorems below are instantiated. The viewer is user 0;
  users 1 and 2 have the same name; user 4 occurs in an expense but has no user document;
  the last expense is a group expense. \<open>ex_db_swapped\<close> lists the two users of the
  same name in the other order.
\<close>

definition ex_user :: "nat \<Rightarrow> string \<Rightarrow> user" where
  "ex_user n s = \<lparr>u_id = UserId n, u_name = lit s, u_email = lit (s @ ''@ex.org''), u_imageUrl = None\<rparr>"

definition ex_expense :: "nat \<Rightarrow> group_id option \<Rightarrow> nat list \<Rightarrow> expense" where
  "ex_expense p g ss =
     \<lparr>paidByUserId = UserId p, groupId = g,
      splits = map (\<lambda>n. \<lparr>userId = UserId n, amount = 10\<rparr>) ss\<rparr>"

definition ex_group :: "nat \<Rightarrow> string \<Rightarrow> nat list \<Rightarrow> group" where
  "ex_group n s ms =
     \<lparr>g_name = lit s, g_description = None, g_createdBy = UserId (hd ms),
      g_members = map (\<lambda>k. \<lparr>m_userId = UserId k,
                              m_role = (if k = hd ms then admin else member),
                              m_joinedAt = 1000\<rparr>) ms,
      g_id = GroupId n\<rparr>"

definition ex_db :: db where
  "ex_db =
     \<lparr>users = [ex_user 0 ''Vi'', ex_user 1 ''Al'', ex_user 2 ''Al'', ex_user 3 ''bo'',
               ex_user 6 ''Cy''],
      expenses = [ex_expense 0 None [0, 2, 1], ex_expense 3 None [0, 3],
                  ex_expense 4 None [0, 4], ex_expense 6 (Some (GroupId 0)) [0, 6]],
      groups = [ex_group 0 ''Trip'' [0, 6], ex_group 1 ''Flat'' [6], ex_group 2 ''Alps'' [1, 0]],
      next_id = 3\<rparr>"

definition ex_viewer :: user where
  "ex_viewer = ex_user 0 ''Vi''"


text \<open>
  Calls of \<^verbatim>\<open>createGroup\<close> by the viewer: a valid one, with a duplicated
  member and with white space around the name and the description; one that names the
  unknown users 8 and 9, the first of them twice; and one that has a name of white space
  only (a space, a tab and an ideographic space) and names the unknown user 9. The clock
  \<open>ex_clock\<close> returns 1000 at every reading, the clock \<open>ex_clock_ticking\<close>
  advances by one millisecond from one reading to the next.
\<close>

definition ex_clock :: "nat \<Rightarrow> nat" where
  "ex_clock k = 1000"


definition ex_args_trip :: createGroup_args where
  "ex_args_trip =
     \<lparr>name = lit '' Trip '', description = Some (lit '' Alps 2024 ''),
      members = [UserId 1, UserId 1, UserId 2]\<rparr>"

definition ex_args_unknown :: createGroup_args where
  "ex_args_unknown =
     \<lparr>name = lit ''Trip'', description = None,
      members = [UserId 1, UserId 8, UserId 9, UserId 8]\<rparr>"

definition ex_args_blank :: createGroup_args where
  "ex_args_blank =
     \<lparr>name = [0x0020, 0x0009, 0x3000], description = None, members = [UserId 9]\<rparr>"

section \<open>Properties\<close>

subsection \<open>Sets and sorting\<close>

lemma set_set_add: "set (set_add s x) = insert x (set s)"
  by (auto simp: set_add_def)

lemma distinct_set_add: "distinct s \<Longrightarrow> distinct (set_add s x)"
  by (simp add: set_add_def)

lemma set_foldl_set_add: "set (foldl set_add acc xs) = set acc \<union> set xs"
  by (induction xs arbitrary: acc) (auto simp: set_set_add)

lemma distinct_foldl_set_add: "distinct acc \<Longrightarrow> distinct (foldl set_add acc xs)"
  by (induction xs arbitrary: acc) (auto simp: distinct_set_add)

lemma set_new_Set: "set (new_Set xs) = set xs"
  by (simp add: new_Set_def set_foldl_set_add)

lemma distinct_new_Set: "distinct (new_Set xs)"
  by (simp add: new_Set_def distinct_foldl_set_add)

lemma mset_sort_insert: "mset (sort_insert cmp x ys) = add_mset x (mset ys)"
  by (induction ys) auto

lemma mset_js_sort: "mset (js_sort cmp xs) = mset xs"
  by (induction xs) (auto simp: js_sort_def mset_sort_insert)

lemma set_js_sort: "set (js_sort cmp xs) = set xs"
  using mset_js_sort [of cmp xs] by (metis set_mset_mset)










subsection \<open>The contact ids and their resolution\<close>



lemma filter_Boolean_Cons:
  "filter_Boolean (x # xs) = (case x of None \<Rightarrow> filter_Boolean xs | Some y \<Rightarrow> y # filter_Boolean xs)"
  by (simp add: filter_Boolean_def map_filter_simps split: option.splits)

lemma filter_Boolean_Nil: "filter_Boolean [] = []"
  by (simp add: filter_Boolean_def map_filter_simps)

lemma mset_filter_Boolean:
  "mset (filter_Boolean xs) = image_mset the (filter_mset (\<lambda>x. x \<noteq> None) (mset xs))"
  by (induction xs) (auto simp: filter_Boolean_Cons filter_Boolean_Nil split: option.splits)



lemma db_get_user_id: "db_get_user d i = Some u \<Longrightarrow> u_id u = i"
  unfolding db_get_user_def by (induction "users d" arbitrary: d) (auto simp: find_Some_iff)

lemma set_add_expense_contacts:
  "set (add_expense_contacts cu ids e) =
     set ids \<union> (insert (paidByUserId e) (userId ` set (splits e)) - {cu})"
proof -
  have "set (foldl (\<lambda>acc s. if userId s \<noteq> cu then set_add acc (userId s) else acc) acc ss) =
        set acc \<union> (userId ` set ss - {cu})" for acc ss
    by (induction ss arbitrary: acc) (auto simp: set_set_add)
  then show ?thesis by (auto simp: add_expense_contacts_def set_set_add)
qed

lemma distinct_add_expense_contacts:
  assumes "distinct ids"
  shows "distinct (add_expense_contacts cu ids e)"
proof -
  have fold: "distinct acc \<Longrightarrow>
        distinct (foldl (\<lambda>acc s. if userId s \<noteq> cu then set_add acc (userId s) else acc) acc ss)" for acc ss
    by (induction ss arbitrary: acc) (auto simp: distinct_set_add)
  have "distinct (if paidByUserId e \<noteq> cu then set_add ids (paidByUserId e) else ids)"
    using assms by (simp add: distinct_set_add)
  then show ?thesis unfolding add_expense_contacts_def by (rule fold)
qed

lemma set_foldl_add_expense_contacts:
  "set (foldl (add_expense_contacts cu) acc es) =
     set acc \<union> (\<Union>e \<in> set es. insert (paidByUserId e) (userId ` set (splits e)) - {cu})"
  by (induction es arbitrary: acc) (auto simp: set_add_expense_contacts)

lemma distinct_foldl_add_expense_contacts:
  "distinct acc \<Longrightarrow> distinct (foldl (add_expense_contacts cu) acc es)"
  by (induction es arbitrary: acc) (auto simp: distinct_add_expense_contacts)

lemma set_personalExpenses:
  "set (personalExpenses d cu) =
     {e \<in> set (expenses d). groupId e = None \<and>
        (paidByUserId e = cu \<or> cu \<in> userId ` set (splits e))}"
  by (auto simp: personalExpenses_def expensesYouPaid_def expensesNotPaidByYou_def list_ex_iff)

lemma set_contactIds:
  "set (contactIds d cu) =
     {i. i \<noteq> cu \<and> (\<exists>e \<in> set (expenses d). groupId e = None \<and>
           (paidByUserId e = cu \<or> cu \<in> userId ` set (splits e)) \<and>
           (i = paidByUserId e \<or> i \<in> userId ` set (splits e)))}"
  unfolding contactIds_def set_foldl_add_expense_contacts set_personalExpenses by auto

lemma distinct_contactIds: "distinct (contactIds d cu)"
  by (simp add: contactIds_def distinct_foldl_add_expense_contacts)

lemma filter_Boolean_contactUsers:
  "map c_id (filter_Boolean (contactUsers d cu)) =
     filter (\<lambda>i. db_get_user d i \<noteq> None) (contactIds d cu)"
proof -
  have "map c_id (filter_Boolean (map (\<lambda>i. map_option to_contact_user (db_get_user d i)) is)) =
        filter (\<lambda>i. db_get_user d i \<noteq> None) is" for "is"
    by (induction "is")
       (auto simp: filter_Boolean_Cons filter_Boolean_Nil to_contact_user_def
             dest: db_get_user_id split: option.splits)
  then show ?thesis by (simp add: contactUsers_def)
qed

lemma mset_c_users:
  "mset (c_users (getAllContacts lc d cu)) = mset (filter_Boolean (contactUsers d (u_id cu)))"
  by (simp add: getAllContacts_def mset_filter_Boolean mset_js_sort)

lemma mset_c_users_ids:
  "mset (map c_id (c_users (getAllContacts lc d cu))) =
     mset (filter (\<lambda>i. db_get_user d i \<noteq> None) (contactIds d (u_id cu)))"
proof -
  have "mset (map c_id (c_users (getAllContacts lc d cu))) =
        image_mset c_id (mset (filter_Boolean (contactUsers d (u_id cu))))"
    by (simp add: mset_c_users)
  also have "\<dots> = mset (map c_id (filter_Boolean (contactUsers d (u_id cu))))" by simp
  finally show ?thesis by (simp only: filter_Boolean_contactUsers)
qed


lemma personalExpenses_personal_only:
  "personalExpenses (d\<lparr>expenses := filter (\<lambda>e. groupId e = None) (expenses d)\<rparr>) cu =
     personalExpenses d cu"
  by (simp add: personalExpenses_def expensesYouPaid_def expensesNotPaidByYou_def conj_commute)

lemma contactUsers_personal_only:
  "contactUsers (d\<lparr>expenses := filter (\<lambda>e. groupId e = None) (expenses d)\<rparr>) cu =
     contactUsers d cu"
  by (simp add: contactUsers_def contactIds_def personalExpenses_personal_only db_get_user_def)

lemma set_filter_Boolean: "set (filter_Boolean xs) = {y. Some y \<in> set xs}"
  by (induction xs) (auto simp: filter_Boolean_Cons filter_Boolean_Nil split: option.splits)

lemma c_users_resolved:
  assumes "c \<in> set (c_users (getAllContacts lc d cu))"
  shows "map_option to_contact_user (db_get_user d (c_id c)) = Some c"
proof -
  have "set (c_users (getAllContacts lc d cu)) = set (filter_Boolean (contactUsers d (u_id cu)))"
    using mset_c_users by (rule mset_eq_setD)
  with assms have "Some c \<in> set (contactUsers d (u_id cu))"
    by (simp add: set_filter_Boolean)
  then obtain i where i: "map_option to_contact_user (db_get_user d i) = Some c"
    unfolding contactUsers_def by (metis (no_types, lifting) imageE list.set_map)
  then obtain u where u: "db_get_user d i = Some u" "c = to_contact_user u" by auto
  then have "c_id c = i" using db_get_user_id [of d i u] by (simp add: to_contact_user_def)
  with i show ?thesis by simp
qed

lemma mset_c_groups:
  "mset (c_groups (getAllContacts lc d cu)) = mset (userGroups d (u_id cu))"
  by (simp add: getAllContacts_def mset_js_sort)



subsection \<open>Trimming, validation and the inserted group\<close>

lemma dropWhile_all_Nil:
  assumes "\<forall>c \<in> set (dropWhile P s). P c"
  shows "dropWhile P s = []"
proof (rule ccontr)
  assume n: "dropWhile P s \<noteq> []"
  then have "\<not> P (hd (dropWhile P s))" by (rule hd_dropWhile)
  moreover have "hd (dropWhile P s) \<in> set (dropWhile P s)" using n by (rule hd_in_set)
  ultimately show False using assms by blast
qed

lemma trim_Nil_iff: "trim s = [] \<longleftrightarrow> (\<forall>c \<in> set s. is_white_space c)"
proof
  assume "trim s = []"
  then have "dropWhile is_white_space (rev (dropWhile is_white_space s)) = []"
    by (simp only: trim_def rev_is_Nil_conv)
  then have "\<forall>c \<in> set (rev (dropWhile is_white_space s)). is_white_space c"
    by (simp only: dropWhile_eq_Nil_conv)
  then have "\<forall>c \<in> set (dropWhile is_white_space s). is_white_space c"
    by (simp only: set_rev)
  then have "dropWhile is_white_space s = []" by (rule dropWhile_all_Nil)
  then show "\<forall>c \<in> set s. is_white_space c" by (simp only: dropWhile_eq_Nil_conv)
next
  assume "\<forall>c \<in> set s. is_white_space c"
  then have "dropWhile is_white_space s = []" by (simp only: dropWhile_eq_Nil_conv)
  then show "trim s = []" by (simp only: trim_def rev.simps dropWhile.simps)
qed

lemma trim_decomp:
  "\<exists>pre post. s = pre @ trim s @ post \<and>
     (\<forall>c \<in> set pre. is_white_space c) \<and> (\<forall>c \<in> set post. is_white_space c)"
proof -
  let ?a = "takeWhile is_white_space s"
  let ?b = "dropWhile is_white_space s"
  let ?c = "takeWhile is_white_space (rev ?b)"
  let ?d = "dropWhile is_white_space (rev ?b)"
  have 1: "?a @ ?b = s" by (rule takeWhile_dropWhile_id)
  have "?c @ ?d = rev ?b" by (rule takeWhile_dropWhile_id)
  then have "rev (?c @ ?d) = rev (rev ?b)" by (rule arg_cong)
  then have 2: "rev ?d @ rev ?c = ?b" by (simp only: rev_append rev_rev_ident)
  have 3: "trim s = rev ?d" by (simp only: trim_def)
  have "s = ?a @ trim s @ rev ?c" using 1 2 3 by (metis append_assoc)
  moreover have "\<forall>c \<in> set ?a. is_white_space c" by (auto dest: set_takeWhileD)
  moreover have "\<forall>c \<in> set (rev ?c). is_white_space c" by (auto dest: set_takeWhileD)
  ultimately show ?thesis by blast
qed

lemma trim_ends:
  assumes "trim s \<noteq> []"
  shows "\<not> is_white_space (hd (trim s)) \<and> \<not> is_white_space (last (trim s))"
proof -
  let ?b = "dropWhile is_white_space s"
  let ?c = "takeWhile is_white_space (rev ?b)"
  let ?d = "dropWhile is_white_space (rev ?b)"
  have t: "trim s = rev ?d" by (simp only: trim_def)
  have d: "?d \<noteq> []" using assms by (simp only: t rev_is_Nil_conv not_False_eq_True)
  have b: "?b \<noteq> []"
  proof
    assume "?b = []"
    then have "?d = []" by (simp only: rev.simps dropWhile.simps)
    with d show False by blast
  qed
  have "\<not> is_white_space (hd ?d)" using d by (rule hd_dropWhile)
  moreover have "last (rev ?d) = hd ?d" by (rule last_rev)
  ultimately have L: "\<not> is_white_space (last (trim s))" by (metis t)
  have nb: "\<not> is_white_space (hd ?b)" using b by (rule hd_dropWhile)
  have "?c @ ?d = rev ?b" by (rule takeWhile_dropWhile_id)
  then have "last (rev ?b) = last ?d" using d by (metis last_appendR)
  moreover have "last (rev ?b) = hd ?b" by (rule last_rev)
  moreover have "hd (rev ?d) = last ?d" by (rule hd_rev)
  ultimately have "hd (trim s) = hd ?b" by (metis t)
  with nb L show ?thesis by metis
qed

lemma find_Some_split:
  "find P xs = Some x \<Longrightarrow>
     \<exists>pre post. xs = pre @ x # post \<and> P x \<and> (\<forall>k \<in> set pre. \<not> P k)"
proof (induction xs)
  case Nil
  then show ?case by simp
next
  case (Cons a xs)
  show ?case
  proof (cases "P a")
    case True
    with Cons.prems have "a # xs = [] @ x # xs \<and> P x" by simp
    then show ?thesis by fastforce
  next
    case False
    with Cons obtain pre post where "xs = pre @ x # post" "P x" "\<forall>k \<in> set pre. \<not> P k"
      by auto
    with False have "a # xs = (a # pre) @ x # post \<and> P x \<and> (\<forall>k \<in> set (a # pre). \<not> P k)"
      by simp
    then show ?thesis by blast
  qed
qed

lemma set_uniqueMembers:
  "set (uniqueMembers cu args) = set (members args) \<union> {u_id cu}"
  by (simp add: uniqueMembers_def set_set_add set_new_Set)

lemma distinct_uniqueMembers: "distinct (uniqueMembers cu args)"
  by (simp add: uniqueMembers_def distinct_set_add distinct_new_Set)

lemma first_missing_None_iff:
  "first_missing d ids = None \<longleftrightarrow> (\<forall>i \<in> set ids. db_get_user d i \<noteq> None)"
  by (auto simp: first_missing_def find_None_iff)

lemma map_userId_new_members: "map m_userId (new_members clock cu ids) = ids"
proof -
  have "map m_userId (map (\<lambda>(k, i). \<lparr>m_userId = i,
                     m_role = (if i = u_id cu then admin else member),
                     m_joinedAt = clock k\<rparr>) (enumerate n ids)) = ids" for n
    by (induction ids arbitrary: n) simp_all
  then show ?thesis by (simp add: new_members_def)
qed

lemma new_members_fields:
  assumes "m \<in> set (new_members clock cu ids)"
  shows "m_role m = (if m_userId m = u_id cu then admin else member) \<and>
         (\<exists>k < length ids. m_joinedAt m = clock k)"
proof -
  have "m \<in> set (map (\<lambda>(k, i). \<lparr>m_userId = i,
                     m_role = (if i = u_id cu then admin else member),
                     m_joinedAt = clock k\<rparr>) (enumerate n ids)) \<Longrightarrow>
        m_role m = (if m_userId m = u_id cu then admin else member) \<and>
         (\<exists>k. n \<le> k \<and> k < n + length ids \<and> m_joinedAt m = clock k)" for n
    by (auto simp: in_set_enumerate_eq)
  from this [of 0] assms show ?thesis by (simp add: new_members_def)
qed

lemma createGroup_success:
  assumes "createGroup clock d cu args = (Inr gid, d')"
  shows "trim (name args) \<noteq> [] \<and>
         first_missing d (uniqueMembers cu args) = None \<and>
         gid = GroupId (next_id d) \<and>
         d' = d\<lparr>groups := groups d @
                 [\<lparr>g_name = trim (name args),
                   g_description = Some (case description args of None \<Rightarrow> [] | Some s \<Rightarrow> trim s),
                   g_createdBy = u_id cu,
                   g_members = new_members clock cu (uniqueMembers cu args),
                   g_id = gid\<rparr>],
               next_id := Suc (next_id d)\<rparr>"
  using assms
  by (auto simp: createGroup_def db_insert_group_def Let_def group_doc.extend_def
           split: if_splits option.splits)

lemma ex_trip_succeeds:
  "createGroup ex_clock ex_db ex_viewer ex_args_trip =
     (Inr (GroupId 3), snd (createGroup ex_clock ex_db ex_viewer ex_args_trip))"
proof -
  have "fst (createGroup ex_clock ex_db ex_viewer ex_args_trip) = Inr (GroupId 3)"
    by code_simp
  then show ?thesis by (simp add: prod_eq_iff)
qed

lemma inserted_group:
  assumes "createGroup clock d cu args = (Inr gid, d')"
  shows "\<exists>g. groups d' = groups d @ [g] \<and> g_id g = gid \<and>
           g_name g = trim (name args) \<and>
           g_description g = Some (case description args of None \<Rightarrow> [] | Some s \<Rightarrow> trim s) \<and>
           g_createdBy g = u_id cu \<and>
           g_members g = new_members clock cu (uniqueMembers cu args)"
proof -
  define g where "g = \<lparr>g_name = trim (name args),
             g_description = Some (case description args of None \<Rightarrow> [] | Some s \<Rightarrow> trim s),
             g_createdBy = u_id cu,
             g_members = new_members clock cu (uniqueMembers cu args), g_id = gid\<rparr>"
  from createGroup_success [OF assms]
  have "d' = d\<lparr>groups := groups d @ [g], next_id := Suc (next_id d)\<rparr>"
    unfolding g_def by blast
  then have "groups d' = groups d @ [g]" by simp
  moreover have "g_id g = gid" "g_name g = trim (name args)"
    "g_description g = Some (case description args of None \<Rightarrow> [] | Some s \<Rightarrow> trim s)"
    "g_createdBy g = u_id cu" "g_members g = new_members clock cu (uniqueMembers cu args)"
    by (simp_all add: g_def)
  ultimately show ?thesis by blast
qed

lemma find_append_first:
  "find P (xs @ ys) = (case find P xs of None \<Rightarrow> find P ys | Some x \<Rightarrow> Some x)"
  by (induction xs) simp_all

lemma find_set_add: "find P (set_add s x) = find P (s @ [x])"
proof (cases "x \<in> set s")
  case False
  then show ?thesis by (simp add: set_add_def)
next
  case True
  show ?thesis
  proof (cases "find P s")
    case None
    with True have "\<not> P x" by (auto simp: find_None_iff)
    with None True show ?thesis by (simp add: set_add_def find_append_first)
  next
    case (Some y)
    with True show ?thesis by (simp add: set_add_def find_append_first)
  qed
qed

lemma find_foldl_set_add: "find P (foldl set_add acc xs) = find P (acc @ xs)"
proof (induction xs arbitrary: acc)
  case Nil
  then show ?case by simp
next
  case (Cons x xs)
  have "find P (foldl set_add (set_add acc x) xs) = find P (set_add acc x @ xs)"
    by (rule Cons.IH)
  also have "\<dots> = (case find P (set_add acc x) of None \<Rightarrow> find P xs | Some y \<Rightarrow> Some y)"
    by (rule find_append_first)
  also have "\<dots> = (case find P (acc @ [x]) of None \<Rightarrow> find P xs | Some y \<Rightarrow> Some y)"
    by (simp only: find_set_add)
  also have "\<dots> = find P ((acc @ [x]) @ xs)"
    by (rule find_append_first [symmetric])
  finally show ?case by simp
qed

lemma first_missing_uniqueMembers:
  "first_missing d (uniqueMembers cu args) = first_missing d (members args @ [u_id cu])"
proof -
  let ?P = "\<lambda>i. db_get_user d i = None"
  have "find ?P (set_add (new_Set (members args)) (u_id cu)) =
        find ?P (new_Set (members args) @ [u_id cu])"
    by (rule find_set_add)
  also have "\<dots> = (case find ?P (new_Set (members args)) of
                      None \<Rightarrow> find ?P [u_id cu] | Some y \<Rightarrow> Some y)"
    by (rule find_append_first)
  also have "find ?P (new_Set (members args)) = find ?P (members args)"
    unfolding new_Set_def using find_foldl_set_add [of ?P "[]" "members args"] by simp
  also have "(case find ?P (members args) of
                      None \<Rightarrow> find ?P [u_id cu] | Some y \<Rightarrow> Some y) =
             find ?P (members args @ [u_id cu])"
    by (rule find_append_first [symmetric])
  finally show ?thesis by (simp only: first_missing_def uniqueMembers_def)
qed



section \<open>The claims\<close>

text \<open>
  C1. For every viewer and every ledger state, the users list returned by
  \<^verbatim>\<open>getAllContacts\<close> is exactly the set of other users who appear, as payer or
  as a split participant, in some personal expense (\<open>groupId\<close> absent) in which the
  viewer is the payer or appears in a split; expenses that carry a \<open>groupId\<close>
  contribute no entries. The collected ids are exactly these ids; the users list holds,
  once each, the projection of the user document of every collected id that has one; and
  the list does not change when the group expenses are removed from the ledger.
\<close>

theorem getAllContacts_users:
  "set (contactIds d (u_id cu)) =
     {i. i \<noteq> u_id cu \<and>
         (\<exists>e \<in> set (expenses d). groupId e = None \<and>
            (paidByUserId e = u_id cu \<or> u_id cu \<in> userId ` set (splits e)) \<and>
            (i = paidByUserId e \<or> i \<in> userId ` set (splits e)))}
   \<and> c_id ` set (c_users (getAllContacts lc d cu)) =
     {i. i \<noteq> u_id cu \<and> db_get_user d i \<noteq> None \<and>
         (\<exists>e \<in> set (expenses d). groupId e = None \<and>
            (paidByUserId e = u_id cu \<or> u_id cu \<in> userId ` set (splits e)) \<and>
            (i = paidByUserId e \<or> i \<in> userId ` set (splits e)))}
   \<and> distinct (map c_id (c_users (getAllContacts lc d cu)))
   \<and> (\<forall>c \<in> set (c_users (getAllContacts lc d cu)).
         map_option to_contact_user (db_get_user d (c_id c)) = Some c)
   \<and> c_users (getAllContacts lc (d\<lparr>expenses := filter (\<lambda>e. groupId e = None) (expenses d)\<rparr>) cu) =
       c_users (getAllContacts lc d cu)"
proof -
  let ?r = "getAllContacts lc d cu"
  let ?res = "filter (\<lambda>i. db_get_user d i \<noteq> None) (contactIds d (u_id cu))"
  have m: "mset (map c_id (c_users ?r)) = mset ?res" by (rule mset_c_users_ids)
  have "set (map c_id (c_users ?r)) = set ?res" using m by (rule mset_eq_setD)
  then have A: "c_id ` set (c_users ?r) = {i \<in> set (contactIds d (u_id cu)). db_get_user d i \<noteq> None}"
    by simp
  have B: "distinct (map c_id (c_users ?r))"
    using mset_eq_imp_distinct_iff [OF m] distinct_contactIds [of d "u_id cu"] by simp
  have C: "c_users (getAllContacts lc (d\<lparr>expenses := filter (\<lambda>e. groupId e = None) (expenses d)\<rparr>) cu) =
       c_users ?r"
    by (simp add: getAllContacts_def contactUsers_personal_only)
  show ?thesis
    apply (intro conjI)
        apply (rule set_contactIds)
       apply (subst A, subst set_contactIds, blast)
      apply (rule B)
     apply (intro ballI, erule c_users_resolved)
    apply (rule C)
    done
qed


theorem getAllContacts_users_witness:
  "c_id ` set (c_users (getAllContacts codeunit_compare ex_db ex_viewer)) =
     {i. i \<noteq> u_id ex_viewer \<and> db_get_user ex_db i \<noteq> None \<and>
         (\<exists>e \<in> set (expenses ex_db). groupId e = None \<and>
            (paidByUserId e = u_id ex_viewer \<or> u_id ex_viewer \<in> userId ` set (splits e)) \<and>
            (i = paidByUserId e \<or> i \<in> userId ` set (splits e)))}
   \<and> map c_id (c_users (getAllContacts codeunit_compare ex_db ex_viewer)) =
       [UserId 2, UserId 1, UserId 3]"
proof -
  have "map c_id (c_users (getAllContacts codeunit_compare ex_db ex_viewer)) =
          [UserId 2, UserId 1, UserId 3]"
    by code_simp
  with getAllContacts_users [of ex_db ex_viewer codeunit_compare] show ?thesis by blast
qed

text \<open>
  C2. When a contact id collected from the viewer's personal expenses does not resolve to
  a user document, \<^verbatim>\<open>getAllContacts\<close> leaves that id out of the users list and
  still returns: the model has no failing branch, as the handler has no
  \<^verbatim>\<open>throw\<close>, and the list it returns holds exactly the collected ids that
  resolve, once each, so it is shorter than the list of the collected ids.
\<close>

theorem getAllContacts_drops_unresolved:
  assumes "i \<in> set (contactIds d (u_id cu))" and "db_get_user d i = None"
  shows "i \<notin> c_id ` set (c_users (getAllContacts lc d cu)) \<and>
         mset (map c_id (c_users (getAllContacts lc d cu))) =
           mset (filter (\<lambda>j. db_get_user d j \<noteq> None) (contactIds d (u_id cu))) \<and>
         length (c_users (getAllContacts lc d cu)) < length (contactIds d (u_id cu))"
proof -
  let ?r = "getAllContacts lc d cu"
  let ?res = "filter (\<lambda>j. db_get_user d j \<noteq> None) (contactIds d (u_id cu))"
  have m: "mset (map c_id (c_users ?r)) = mset ?res" by (rule mset_c_users_ids)
  have "set (map c_id (c_users ?r)) = set ?res" using m by (rule mset_eq_setD)
  with assms(2) have A: "i \<notin> c_id ` set (c_users ?r)" by simp
  have "length (map c_id (c_users ?r)) = length ?res" using m by (rule mset_eq_length)
  moreover have "length ?res < length (contactIds d (u_id cu))"
    using assms by (intro length_filter_less [of i]) simp_all
  ultimately have C: "length (c_users ?r) < length (contactIds d (u_id cu))" by simp
  from A m C show ?thesis by blast
qed

theorem getAllContacts_drops_unresolved_witness:
  "UserId 4 \<in> set (contactIds ex_db (u_id ex_viewer)) \<and>
   db_get_user ex_db (UserId 4) = None \<and>
   UserId 4 \<notin> c_id ` set (c_users (getAllContacts codeunit_compare ex_db ex_viewer)) \<and>
   length (c_users (getAllContacts codeunit_compare ex_db ex_viewer)) <
     length (contactIds ex_db (u_id ex_viewer))"
proof -
  have h1: "UserId 4 \<in> set (contactIds ex_db (u_id ex_viewer))" by code_simp
  have h2: "db_get_user ex_db (UserId 4) = None" by code_simp
  from getAllContacts_drops_unresolved [OF h1 h2, of codeunit_compare] h1 h2
  show ?thesis by blast
qed

text \<open>
  C4. The users list returned by \<^verbatim>\<open>getAllContacts\<close> never contains the
  viewer's own id, and no group id appears more than once in the groups list: a group id
  occurs in the list at most as often as in the groups table, whose documents have
  pairwise distinct ids.
\<close>

theorem getAllContacts_no_viewer_no_duplicate_group:
  "u_id cu \<notin> c_id ` set (c_users (getAllContacts lc d cu)) \<and>
   mset (map cg_id (c_groups (getAllContacts lc d cu))) \<subseteq># mset (map g_id (groups d)) \<and>
   (distinct (map g_id (groups d)) \<longrightarrow>
      distinct (map cg_id (c_groups (getAllContacts lc d cu))))"
proof -
  let ?r = "getAllContacts lc d cu"
  let ?res = "filter (\<lambda>j. db_get_user d j \<noteq> None) (contactIds d (u_id cu))"
  have "mset (map c_id (c_users ?r)) = mset ?res" by (rule mset_c_users_ids)
  then have "set (map c_id (c_users ?r)) = set ?res" by (rule mset_eq_setD)
  moreover have "u_id cu \<notin> set (contactIds d (u_id cu))" by (simp add: set_contactIds)
  ultimately have A: "u_id cu \<notin> c_id ` set (c_users ?r)" by simp
  have B: "distinct (map cg_id (c_groups ?r))" if dist: "distinct (map g_id (groups d))"
  proof -
    have "mset (map cg_id (c_groups ?r)) = mset (map cg_id (userGroups d (u_id cu)))"
      by (simp add: mset_c_groups)
    moreover have "map cg_id (userGroups d (u_id cu)) =
        map g_id (filter (\<lambda>g. list_ex (\<lambda>m. m_userId m = u_id cu) (g_members g)) (groups d))"
      by (simp add: userGroups_def to_contact_group_def)
    moreover have "distinct (map g_id (filter (\<lambda>g. list_ex (\<lambda>m. m_userId m = u_id cu) (g_members g)) (groups d)))"
      using dist by (rule distinct_map_filter)
    ultimately show ?thesis using mset_eq_imp_distinct_iff by metis
  qed
  have "mset (map cg_id (c_groups ?r)) =
        image_mset g_id (filter_mset (\<lambda>g. list_ex (\<lambda>m. m_userId m = u_id cu) (g_members g))
          (mset (groups d)))"
    by (simp add: mset_c_groups userGroups_def to_contact_group_def
          multiset.map_comp comp_def)
  also have "\<dots> \<subseteq># image_mset g_id (mset (groups d))"
    by (intro image_mset_subseteq_mono multiset_filter_subset)
  finally have C: "mset (map cg_id (c_groups ?r)) \<subseteq># mset (map g_id (groups d))" by simp
  from A B C show ?thesis by blast
qed

theorem getAllContacts_no_viewer_no_duplicate_group_witness:
  "distinct (map g_id (groups ex_db)) \<and>
   u_id ex_viewer \<notin> c_id ` set (c_users (getAllContacts codeunit_compare ex_db ex_viewer)) \<and>
   distinct (map cg_id (c_groups (getAllContacts codeunit_compare ex_db ex_viewer))) \<and>
   map cg_id (c_groups (getAllContacts codeunit_compare ex_db ex_viewer)) = [GroupId 2, GroupId 0]"
proof -
  have h: "distinct (map g_id (groups ex_db))" by code_simp
  have e: "map cg_id (c_groups (getAllContacts codeunit_compare ex_db ex_viewer)) = [GroupId 2, GroupId 0]"
    by code_simp
  from getAllContacts_no_viewer_no_duplicate_group [of ex_viewer codeunit_compare ex_db] h e
  show ?thesis by blast
qed

text \<open>
  C8. The groups list returned by \<^verbatim>\<open>getAllContacts\<close> consists of exactly the
  groups whose member roster contains the viewer, each once and projected to its id, name
  and description and to \<open>memberCount\<close>, the length of its roster.
\<close>

theorem getAllContacts_groups:
  "mset (c_groups (getAllContacts lc d cu)) =
     image_mset
       (\<lambda>g. \<lparr>cg_id = g_id g, cg_name = g_name g, cg_description = g_description g,
              cg_memberCount = length (g_members g), cg_type = type_group\<rparr>)
       (filter_mset (\<lambda>g. \<exists>m \<in> set (g_members g). m_userId m = u_id cu) (mset (groups d)))"
  by (simp add: mset_c_groups userGroups_def to_contact_group_def [abs_def] list_ex_iff)

theorem getAllContacts_groups_witness:
  "c_groups (getAllContacts codeunit_compare ex_db ex_viewer) =
     [\<lparr>cg_id = GroupId 2, cg_name = lit ''Alps'', cg_description = None,
       cg_memberCount = 2, cg_type = type_group\<rparr>,
      \<lparr>cg_id = GroupId 0, cg_name = lit ''Trip'', cg_description = None,
       cg_memberCount = 2, cg_type = type_group\<rparr>] \<and>
   mset (c_groups (getAllContacts codeunit_compare ex_db ex_viewer)) =
     image_mset
       (\<lambda>g. \<lparr>cg_id = g_id g, cg_name = g_name g, cg_description = g_description g,
              cg_memberCount = length (g_members g), cg_type = type_group\<rparr>)
       (filter_mset (\<lambda>g. \<exists>m \<in> set (g_members g). m_userId m = u_id ex_viewer) (mset (groups ex_db)))"
proof -
  have "c_groups (getAllContacts codeunit_compare ex_db ex_viewer) =
     [\<lparr>cg_id = GroupId 2, cg_name = lit ''Alps'', cg_description = None,
       cg_memberCount = 2, cg_type = type_group\<rparr>,
      \<lparr>cg_id = GroupId 0, cg_name = lit ''Trip'', cg_description = None,
       cg_memberCount = 2, cg_type = type_group\<rparr>]"
    by code_simp
  with getAllContacts_groups [of codeunit_compare ex_db ex_viewer] show ?thesis by blast
qed




text \<open>
  C5. The handler validates the name first (C7) and then the members. For a call of
  \<^verbatim>\<open>createGroup\<close> that passes the name check: when some id of the
  deduplicated member set (the requested members and the caller) references no user, the
  call fails with \<open>UnknownUser j\<close>, where \<open>j\<close> is the first id without a user
  in the list of the requested members followed by the caller, which is the order in
  which the set is traversed; and no group is persisted: the database is the one before
  the call.
\<close>

theorem createGroup_unknown_user:
  assumes "trim (name args) \<noteq> []"
      and "i \<in> set (members args) \<union> {u_id cu}"
      and "db_get_user d i = None"
  shows "\<exists>j pre post.
           members args @ [u_id cu] = pre @ j # post \<and>
           (\<forall>k \<in> set pre. db_get_user d k \<noteq> None) \<and>
           db_get_user d j = None \<and>
           createGroup clock d cu args = (Inl (UnknownUser j), d)"
proof -
  from assms(2) have "i \<in> set (uniqueMembers cu args)" by (simp only: set_uniqueMembers)
  with assms(3) have "first_missing d (uniqueMembers cu args) \<noteq> None"
    by (auto simp: first_missing_None_iff)
  then obtain j where j: "first_missing d (uniqueMembers cu args) = Some j" by blast
  then have "first_missing d (members args @ [u_id cu]) = Some j"
    unfolding first_missing_uniqueMembers .
  then have "find (\<lambda>k. db_get_user d k = None) (members args @ [u_id cu]) = Some j"
    unfolding first_missing_def .
  then obtain pre post where
    "members args @ [u_id cu] = pre @ j # post" "db_get_user d j = None"
    "\<forall>k \<in> set pre. db_get_user d k \<noteq> None"
    using find_Some_split [of "\<lambda>k. db_get_user d k = None" "members args @ [u_id cu]" j]
    by blast
  moreover have "createGroup clock d cu args = (Inl (UnknownUser j), d)"
    using assms(1) j by (simp add: createGroup_def)
  ultimately show ?thesis by blast
qed

theorem createGroup_unknown_user_witness:
  "trim (name ex_args_unknown) \<noteq> [] \<and>
   UserId 9 \<in> set (members ex_args_unknown) \<union> {u_id ex_viewer} \<and>
   db_get_user ex_db (UserId 9) = None \<and>
   members ex_args_unknown @ [u_id ex_viewer] =
     [UserId 1, UserId 8, UserId 9, UserId 8, UserId 0] \<and>
   createGroup ex_clock ex_db ex_viewer ex_args_unknown = (Inl (UnknownUser (UserId 8)), ex_db) \<and>
   (\<exists>j pre post.
      members ex_args_unknown @ [u_id ex_viewer] = pre @ j # post \<and>
      (\<forall>k \<in> set pre. db_get_user ex_db k \<noteq> None) \<and>
      db_get_user ex_db j = None \<and>
      createGroup ex_clock ex_db ex_viewer ex_args_unknown = (Inl (UnknownUser j), ex_db))"
proof -
  have h1: "trim (name ex_args_unknown) \<noteq> []" by code_simp
  have h2: "UserId 9 \<in> set (members ex_args_unknown) \<union> {u_id ex_viewer}" by code_simp
  have h3: "db_get_user ex_db (UserId 9) = None" by code_simp
  have l: "members ex_args_unknown @ [u_id ex_viewer] =
     [UserId 1, UserId 8, UserId 9, UserId 8, UserId 0]" by code_simp
  have e: "fst (createGroup ex_clock ex_db ex_viewer ex_args_unknown) = Inl (UnknownUser (UserId 8))"
    by code_simp
  from createGroup_unknown_user [OF h1 h2 h3, of ex_clock] obtain j pre post where
    j: "members ex_args_unknown @ [u_id ex_viewer] = pre @ j # post"
       "\<forall>k \<in> set pre. db_get_user ex_db k \<noteq> None"
       "db_get_user ex_db j = None"
       "createGroup ex_clock ex_db ex_viewer ex_args_unknown = (Inl (UnknownUser j), ex_db)"
    by blast
  with e have "j = UserId 8" by simp
  with j h1 h2 h3 l show ?thesis by blast
qed

text \<open>
  C6. After a successful call of \<^verbatim>\<open>createGroup\<close> the groups table has one
  more document, the new group; the user ids of its members are exactly the requested
  member ids and the caller, they are pairwise distinct, the caller is a member with
  role \<open>admin\<close> and every other member has role \<open>member\<close>.
\<close>

theorem createGroup_members:
  assumes "createGroup clock d cu args = (Inr gid, d')"
  shows "\<exists>g. groups d' = groups d @ [g] \<and> g_id g = gid \<and>
           m_userId ` set (g_members g) = set (members args) \<union> {u_id cu} \<and>
           distinct (map m_userId (g_members g)) \<and>
           (\<exists>m \<in> set (g_members g). m_userId m = u_id cu \<and> m_role m = admin) \<and>
           (\<forall>m \<in> set (g_members g). m_userId m \<noteq> u_id cu \<longrightarrow> m_role m = member)"
proof -
  define ms where "ms = new_members clock cu (uniqueMembers cu args)"
  define g where "g = \<lparr>g_name = trim (name args),
             g_description = Some (case description args of None \<Rightarrow> [] | Some s \<Rightarrow> trim s),
             g_createdBy = u_id cu, g_members = ms, g_id = gid\<rparr>"
  have gm: "g_members g = ms" and gi: "g_id g = gid" by (simp_all add: g_def)
  from createGroup_success [OF assms]
  have "d' = d\<lparr>groups := groups d @ [g], next_id := Suc (next_id d)\<rparr>"
    unfolding g_def ms_def by blast
  then have d': "groups d' = groups d @ [g]" by simp
  have ids: "map m_userId ms = uniqueMembers cu args"
    unfolding ms_def by (rule map_userId_new_members)
  then have "set (map m_userId ms) = set (uniqueMembers cu args)" by (rule arg_cong)
  then have A: "m_userId ` set ms = set (members args) \<union> {u_id cu}"
    by (simp only: set_map set_uniqueMembers)
  have B: "distinct (map m_userId ms)" by (simp only: ids distinct_uniqueMembers)
  have role: "m_role m = (if m_userId m = u_id cu then admin else member)"
    if "m \<in> set ms" for m
    using that new_members_fields [of m clock cu "uniqueMembers cu args"]
    unfolding ms_def by blast
  have "u_id cu \<in> m_userId ` set ms" unfolding A by simp
  then obtain m where m: "m \<in> set ms" "m_userId m = u_id cu" by auto
  with role [of m] have C: "\<exists>m \<in> set ms. m_userId m = u_id cu \<and> m_role m = admin" by auto
  have D: "\<forall>m \<in> set ms. m_userId m \<noteq> u_id cu \<longrightarrow> m_role m = member"
    using role by simp
  have "groups d' = groups d @ [g] \<and> g_id g = gid \<and>
           m_userId ` set (g_members g) = set (members args) \<union> {u_id cu} \<and>
           distinct (map m_userId (g_members g)) \<and>
           (\<exists>m \<in> set (g_members g). m_userId m = u_id cu \<and> m_role m = admin) \<and>
           (\<forall>m \<in> set (g_members g). m_userId m \<noteq> u_id cu \<longrightarrow> m_role m = member)"
    unfolding gm using d' gi A B C D by blast
  then show ?thesis by (rule exI)
qed


theorem createGroup_members_witness:
  "createGroup ex_clock ex_db ex_viewer ex_args_trip =
     (Inr (GroupId 3), snd (createGroup ex_clock ex_db ex_viewer ex_args_trip)) \<and>
   (\<exists>g. groups (snd (createGroup ex_clock ex_db ex_viewer ex_args_trip)) = groups ex_db @ [g] \<and>
        g_id g = GroupId 3 \<and>
        m_userId ` set (g_members g) = set (members ex_args_trip) \<union> {u_id ex_viewer} \<and>
        distinct (map m_userId (g_members g))) \<and>
   map (\<lambda>m. (m_userId m, m_role m))
     (g_members (last (groups (snd (createGroup ex_clock ex_db ex_viewer ex_args_trip))))) =
     [(UserId 1, member), (UserId 2, member), (UserId 0, admin)]"
proof -
  have e: "map (\<lambda>m. (m_userId m, m_role m))
     (g_members (last (groups (snd (createGroup ex_clock ex_db ex_viewer ex_args_trip))))) =
     [(UserId 1, member), (UserId 2, member), (UserId 0, admin)]" by code_simp
  from createGroup_members [OF ex_trip_succeeds] ex_trip_succeeds e
  show ?thesis by blast
qed

text \<open>
  C7. A call of \<^verbatim>\<open>createGroup\<close> whose name is empty or consists of white
  space only fails with \<open>InvalidGroupName\<close>, and the database is the one before
  the call: nothing is written.
\<close>

theorem createGroup_blank_name:
  assumes "\<forall>c \<in> set (name args). is_white_space c"
  shows "createGroup clock d cu args = (Inl InvalidGroupName, d)"
proof -
  from assms have "trim (name args) = []" by (simp only: trim_Nil_iff)
  then show ?thesis by (simp add: createGroup_def)
qed

theorem createGroup_blank_name_witness:
  "list_all is_white_space (name ex_args_blank) \<and>
   name ex_args_blank \<noteq> [] \<and>
   createGroup ex_clock ex_db ex_viewer ex_args_blank = (Inl InvalidGroupName, ex_db) \<and>
   createGroup ex_clock ex_db ex_viewer (ex_args_blank\<lparr>name := []\<rparr>) = (Inl InvalidGroupName, ex_db)"
proof -
  have h: "\<forall>c \<in> set (name ex_args_blank). is_white_space c" by code_simp
  have n: "name ex_args_blank \<noteq> []" by code_simp
  have h': "\<forall>c \<in> set (name (ex_args_blank\<lparr>name := []\<rparr>)). is_white_space c" by simp
  have l: "list_all is_white_space (name ex_args_blank)"
    using h by (simp only: list_all_iff)
  from createGroup_blank_name [OF h, of ex_clock ex_db ex_viewer]
    createGroup_blank_name [OF h', of ex_clock ex_db ex_viewer] l n
  show ?thesis by blast
qed




text \<open>
  C10. After a successful call of \<^verbatim>\<open>createGroup\<close> the name of the new group
  is the name of the call without its leading and trailing white space (it is not empty
  and neither begins nor ends with white space), and its description is the trimmed
  description of the call, or the empty string when the call has none.
\<close>

theorem createGroup_name_description:
  assumes "createGroup clock d cu args = (Inr gid, d')"
  shows "\<exists>g. groups d' = groups d @ [g] \<and> g_id g = gid \<and>
           g_name g = trim (name args) \<and>
           g_name g \<noteq> [] \<and>
           \<not> is_white_space (hd (g_name g)) \<and> \<not> is_white_space (last (g_name g)) \<and>
           (\<exists>pre post. name args = pre @ g_name g @ post \<and>
              (\<forall>c \<in> set pre. is_white_space c) \<and> (\<forall>c \<in> set post. is_white_space c)) \<and>
           g_description g =
             (case description args of None \<Rightarrow> Some [] | Some s \<Rightarrow> Some (trim s))"
proof -
  from inserted_group [OF assms] obtain g where
    g: "groups d' = groups d @ [g]" "g_id g = gid" "g_name g = trim (name args)"
       "g_description g = Some (case description args of None \<Rightarrow> [] | Some s \<Rightarrow> trim s)"
    by blast
  have ne: "trim (name args) \<noteq> []" using createGroup_success [OF assms] by blast
  have ends: "\<not> is_white_space (hd (trim (name args))) \<and> \<not> is_white_space (last (trim (name args)))"
    using ne by (rule trim_ends)
  have dec: "\<exists>pre post. name args = pre @ trim (name args) @ post \<and>
              (\<forall>c \<in> set pre. is_white_space c) \<and> (\<forall>c \<in> set post. is_white_space c)"
    by (rule trim_decomp)
  have de: "g_description g = (case description args of None \<Rightarrow> Some [] | Some s \<Rightarrow> Some (trim s))"
    using g(4) by (simp split: option.splits)
  from g(1,2,3) ne ends dec de show ?thesis unfolding g(3) [symmetric] by blast
qed

theorem createGroup_name_description_witness:
  "createGroup ex_clock ex_db ex_viewer ex_args_trip =
     (Inr (GroupId 3), snd (createGroup ex_clock ex_db ex_viewer ex_args_trip)) \<and>
   (\<exists>g. groups (snd (createGroup ex_clock ex_db ex_viewer ex_args_trip)) = groups ex_db @ [g] \<and>
        g_id g = GroupId 3 \<and> g_name g = trim (name ex_args_trip)) \<and>
   g_name (last (groups (snd (createGroup ex_clock ex_db ex_viewer ex_args_trip)))) = lit ''Trip'' \<and>
   g_description (last (groups (snd (createGroup ex_clock ex_db ex_viewer ex_args_trip)))) =
     Some (lit ''Alps 2024'') \<and>
   g_description (last (groups (snd (createGroup ex_clock ex_db ex_viewer
       (ex_args_trip\<lparr>description := None\<rparr>))))) = Some []"
proof -
  have e1: "g_name (last (groups (snd (createGroup ex_clock ex_db ex_viewer ex_args_trip)))) = lit ''Trip''"
    by code_simp
  have e2: "g_description (last (groups (snd (createGroup ex_clock ex_db ex_viewer ex_args_trip)))) =
     Some (lit ''Alps 2024'')" by code_simp
  have e3: "g_description (last (groups (snd (createGroup ex_clock ex_db ex_viewer
       (ex_args_trip\<lparr>description := None\<rparr>))))) = Some []" by code_simp
  from createGroup_name_description [OF ex_trip_succeeds] ex_trip_succeeds e1 e2 e3
  show ?thesis by blast
qed

end
